theory Spec2Isabelle
  imports Main "HOL-Library.Word"
begin

unbundle bit_operations_syntax

section \<open>Data model of ContinuousArenaMalloc.cpp\<close>

text \<open>
  Addresses (\<open>char *\<close>, \<open>void *\<close>, \<open>uintptr_t\<close>) and sizes (\<open>size_t\<close>) are 64-bit
  words; \<open>+\<close> and \<open>-\<close> wrap around as the unsigned arithmetic of the source does.
  \<open>NULL\<close> is the word 0 and \<open>MAP_FAILED\<close> is \<open>(void *) -1\<close>.
\<close>

type_synonym addr = "64 word"
type_synonym size_t = "64 word"

definition MAP_FAILED :: addr where
  "MAP_FAILED = - 1"

text \<open>
  Modelled from the spec: the macro \<open>ASSERT\<close> is defined in \<open>wtf/Assertions.h\<close>,
  which is not among the sources. By the specification a violated assertion halts the
  process and is never an ordinary return value. Every assertion of the source is a
  branch of the model that ends in \<open>Inl AssertionFailure\<close>; with it
  \<open>__builtin_align_up\<close> is only reached with a power-of-two alignment, for which
  the compiler defines it.
\<close>

datatype error = AssertionFailure

definition ASSERT :: "bool \<Rightarrow> (error + 'a) \<Rightarrow> (error + 'a)" where
  "ASSERT c k = (if c then k else Inl AssertionFailure)"

text \<open>
  The two kinds of \<open>mmap\<close> call the hooks make on a sub-range of the window:
  \<open>PROT_NONE\<close> with \<open>MAP_GUARD | MAP_FIXED\<close>, and \<open>PROT_READ | PROT_WRITE\<close> with
  \<open>MAP_ANON | MAP_PRIVATE | MAP_FIXED\<close>.
\<close>

datatype mapping_kind = GuardMapping | AnonReadWrite

text \<open>
  The static members the hooks read and write: \<open>s_Start\<close>, \<open>s_End\<close>, \<open>s_Current\<close>.
  The address space is kept as the list of the \<open>mmap\<close> calls that succeeded, most
  recent first (address, length, kind). \<open>s_Initialized\<close>, \<open>s_arenaIndex\<close> and
  \<open>s_extentHooks\<close> are written by \<open>initialize\<close> only and no hook touches them;
  \<open>s_Mutex\<close> is held by each hook for its whole body (\<open>MutexLocker\<close>), so the hooks
  run one after the other and \<open>ASSERT(s_Mutex->tryLock() == false)\<close> holds wherever
  it is reached.
\<close>

record arena =
  s_Start :: addr
  s_End :: addr
  s_Current :: addr
  mapped :: "(addr \<times> size_t \<times> mapping_kind) list"

text \<open>
  The build configuration: whether \<open>__CHERI_PURE_CAPABILITY__\<close> is defined, and the
  two primitives of the capability runtime (\<open>cheriintrin.h\<close>) that \<open>extentAlloc\<close>
  calls, taken as parameters. The tag and length assertions on capabilities are
  outside the model: an address here is its 64-bit value.
\<close>

record build =
  pure_capability :: bool
  cheri_representable_alignment_mask :: "size_t \<Rightarrow> size_t"
  cheri_representable_length :: "size_t \<Rightarrow> size_t"

section \<open>Helpers the source takes from elsewhere\<close>

text \<open>
  Modelled from the spec: \<open>hasOneBitSet\<close> and \<open>hasZeroOrOneBitsSet\<close> are declared in
  \<open>wtf/MathExtras.h\<close>, which is not among the sources. The spec requires the
  alignment to be a power of two; the definitions are the usual bit tests for
  exactly one, and at most one, bit set.
\<close>

definition hasZeroOrOneBitsSet :: "64 word \<Rightarrow> bool" where
  "hasZeroOrOneBitsSet v = ((v - 1) AND v = 0)"

definition hasOneBitSet :: "64 word \<Rightarrow> bool" where
  "hasOneBitSet v = ((v - 1) AND v = 0 \<and> v \<noteq> 0)"

text \<open>
  The compiler builtin \<open>__builtin_align_up(p, a)\<close> for a power of two \<open>a\<close>:
  \<open>(p + (a - 1)) & ~(a - 1)\<close>, on the 64-bit address.
\<close>

definition builtin_align_up :: "addr \<Rightarrow> size_t \<Rightarrow> addr" where
  "builtin_align_up p a = (p + (a - 1)) AND NOT (a - 1)"

text \<open>
  \<open>mmap\<close> with \<open>MAP_FIXED\<close>: the operating system either maps exactly at the address
  asked for and returns it, or returns \<open>MAP_FAILED\<close> and changes nothing. Which of
  the two happens is the input \<open>os_ok\<close>.
\<close>

definition mmap_fixed :: "bool \<Rightarrow> addr \<Rightarrow> size_t \<Rightarrow> mapping_kind \<Rightarrow> arena \<Rightarrow> addr \<times> arena" where
  "mmap_fixed os_ok a len kind s =
     (if os_ok then (a, s\<lparr>mapped := (a, len, kind) # mapped s\<rparr>) else (MAP_FAILED, s))"

section \<open>Range validation\<close>

definition isValidRange :: "arena \<Rightarrow> addr \<Rightarrow> size_t \<Rightarrow> error + bool" where
  "isValidRange s a sz =
     ASSERT (s_Start s \<noteq> 0)
    (ASSERT (s_Current s \<ge> s_Start s)
    (ASSERT (s_End s \<ge> s_Current s)
    (let start = a;
         end' = start + sz
     in if end' < start then Inr False
        else let valid_start = s_Start s;
                 valid_end = s_End s
             in Inr (start \<ge> valid_start \<and> start \<le> valid_end \<and>
                     end' \<ge> valid_start \<and> end' \<le> valid_end))))"

text \<open>\<open>&&\<close> evaluates its right operand only when the left one is true.\<close>

definition isAllocatedRange :: "arena \<Rightarrow> addr \<Rightarrow> size_t \<Rightarrow> error + bool" where
  "isAllocatedRange s a sz =
     (case isValidRange s a sz of
        Inl e \<Rightarrow> Inl e
      | Inr v \<Rightarrow> Inr (v \<and> a + sz \<le> s_Current s))"

definition isAvailableRange :: "arena \<Rightarrow> addr \<Rightarrow> size_t \<Rightarrow> error + bool" where
  "isAvailableRange s a sz =
     (case isValidRange s a sz of
        Inl e \<Rightarrow> Inl e
      | Inr v \<Rightarrow> Inr (v \<and> a \<ge> s_Current s))"

section \<open>The extent hooks\<close>

text \<open>
  The block under \<open>#ifdef __CHERI_PURE_CAPABILITY__\<close> of \<open>extentAlloc\<close>: the size and
  the alignment the hook goes on with.
\<close>

definition widen :: "build \<Rightarrow> size_t \<Rightarrow> size_t \<Rightarrow> error + (size_t \<times> size_t)" where
  "widen b sz alignment =
     (if pure_capability b then
        (let align_mask = - alignment;
             repr_mask = cheri_representable_alignment_mask b sz;
             repr_size = cheri_representable_length b sz
         in ASSERT (hasZeroOrOneBitsSet (NOT repr_mask + 1))
           (ASSERT (repr_size \<ge> sz)
           (let sz' = repr_size;
                alignment' = - (align_mask AND repr_mask)
            in ASSERT (hasOneBitSet alignment') (Inr (sz', alignment')))))
      else Inr (sz, alignment))"

text \<open>
  \<open>extentAlloc\<close> returns the address (0 for \<open>NULL\<close>), the values of \<open>*zero\<close> and
  \<open>*commit\<close> after the call, and the state. The arguments \<open>zero\<close> and \<open>commit\<close> are the
  values behind the two pointers at entry. \<open>extent_hooks\<close> and \<open>arena_ind\<close> are only
  logged and are left out.
\<close>

definition extentAlloc ::
  "build \<Rightarrow> bool \<Rightarrow> arena \<Rightarrow> addr \<Rightarrow> size_t \<Rightarrow> size_t \<Rightarrow> bool \<Rightarrow> bool
     \<Rightarrow> error + (addr \<times> bool \<times> bool \<times> arena)" where
  "extentAlloc b os_ok s new_addr sz alignment zero commit =
     (if new_addr \<noteq> 0 \<or> sz = 0 then Inr (0, zero, commit, s)
      else ASSERT (hasOneBitSet alignment)
        (case widen b sz alignment of
           Inl e \<Rightarrow> Inl e
         | Inr (sz', alignment') \<Rightarrow>
            (let start = builtin_align_up (s_Current s) alignment'
             in case isAvailableRange s start sz' of
                  Inl e \<Rightarrow> Inl e
                | Inr False \<Rightarrow> Inr (0, zero, commit, s)
                | Inr True \<Rightarrow>
                   (case mmap_fixed os_ok start sz' AnonReadWrite s of
                      (r, s1) \<Rightarrow>
                        if r = MAP_FAILED then Inr (0, zero, commit, s1)
                        else Inr (r, True, True, s1\<lparr>s_Current := start + sz'\<rparr>)))))"

definition extentDestroy :: "bool \<Rightarrow> arena \<Rightarrow> addr \<Rightarrow> size_t \<Rightarrow> bool \<Rightarrow> error + arena" where
  "extentDestroy os_ok s a sz committed =
     (case isAllocatedRange s a sz of
        Inl e \<Rightarrow> Inl e
      | Inr v \<Rightarrow>
          ASSERT v
            (case mmap_fixed os_ok a sz GuardMapping s of
               (r, s1) \<Rightarrow> ASSERT (r = a) (Inr s1)))"

definition extentPurgeCommon ::
  "bool \<Rightarrow> arena \<Rightarrow> addr \<Rightarrow> size_t \<Rightarrow> size_t \<Rightarrow> size_t \<Rightarrow> error + (bool \<times> arena)" where
  "extentPurgeCommon os_ok s a sz off len =
     ASSERT (off \<le> sz)
    (ASSERT (off + len \<le> sz)
    (case isAllocatedRange s a sz of
       Inl e \<Rightarrow> Inl e
     | Inr v \<Rightarrow>
        ASSERT v
         (let start = a + off
          in case isAllocatedRange s start len of
               Inl e \<Rightarrow> Inl e
             | Inr v' \<Rightarrow>
                ASSERT v'
                 (case mmap_fixed os_ok start len AnonReadWrite s of
                    (r, s1) \<Rightarrow> ASSERT (r = start) (Inr (False, s1))))))"

definition extentPurgeLazy ::
  "bool \<Rightarrow> arena \<Rightarrow> addr \<Rightarrow> size_t \<Rightarrow> size_t \<Rightarrow> size_t \<Rightarrow> error + (bool \<times> arena)" where
  "extentPurgeLazy os_ok s a sz off len =
     extentPurgeCommon os_ok s a sz off len"

definition extentPurgeForced ::
  "bool \<Rightarrow> arena \<Rightarrow> addr \<Rightarrow> size_t \<Rightarrow> size_t \<Rightarrow> size_t \<Rightarrow> error + (bool \<times> arena)" where
  "extentPurgeForced os_ok s a sz off len =
     extentPurgeCommon os_ok s a sz off len"

section \<open>The window and sequences of hook invocations\<close>

text \<open>
  The three assignments of \<open>initialize\<close> after the reservation succeeded at
  \<open>area_start\<close>: \<open>s_Start = area_start\<close>, \<open>s_End = s_Start + k_AreaSize\<close>,
  \<open>s_Current = s_Start\<close>. \<open>k_AreaSize\<close> is declared in the header, which is not
  among the sources, and is a parameter here. The reservation is a guard mapping.
\<close>

definition initialize_window :: "addr \<Rightarrow> size_t \<Rightarrow> arena" where
  "initialize_window area_start k_AreaSize =
     \<lparr>s_Start = area_start,
      s_End = area_start + k_AreaSize,
      s_Current = area_start,
      mapped = [(area_start, k_AreaSize, GuardMapping)]\<rparr>"

text \<open>
  What the three assertions at the head of \<open>isValidRange\<close> check of the state.
\<close>

definition window_ok :: "arena \<Rightarrow> bool" where
  "window_ok s = (s_Start s \<noteq> 0 \<and> s_Start s \<le> s_Current s \<and> s_Current s \<le> s_End s)"

text \<open>
  One invocation of a hook by the host allocator, with its arguments and with the
  outcome of the \<open>mmap\<close> call it may make (the leading \<open>bool\<close>).
\<close>

datatype hook_call =
    Alloc bool addr size_t size_t bool bool
  | Destroy bool addr size_t bool
  | PurgeLazy bool addr size_t size_t size_t
  | PurgeForced bool addr size_t size_t size_t

fun is_Alloc :: "hook_call \<Rightarrow> bool" where
  "is_Alloc (Alloc os_ok new_addr sz alignment zero commit) = True"
| "is_Alloc (Destroy os_ok a sz committed) = False"
| "is_Alloc (PurgeLazy os_ok a sz off len) = False"
| "is_Alloc (PurgeForced os_ok a sz off len) = False"

text \<open>The state a hook invocation leaves, or the assertion that stopped the process.\<close>

fun invoke :: "build \<Rightarrow> hook_call \<Rightarrow> arena \<Rightarrow> error + arena" where
  "invoke b (Alloc os_ok new_addr sz alignment zero commit) s =
     (case extentAlloc b os_ok s new_addr sz alignment zero commit of
        Inl e \<Rightarrow> Inl e
      | Inr (r, z, c, s') \<Rightarrow> Inr s')"
| "invoke b (Destroy os_ok a sz committed) s = extentDestroy os_ok s a sz committed"
| "invoke b (PurgeLazy os_ok a sz off len) s =
     (case extentPurgeLazy os_ok s a sz off len of
        Inl e \<Rightarrow> Inl e
      | Inr (r, s') \<Rightarrow> Inr s')"
| "invoke b (PurgeForced os_ok a sz off len) s =
     (case extentPurgeForced os_ok s a sz off len of
        Inl e \<Rightarrow> Inl e
      | Inr (r, s') \<Rightarrow> Inr s')"

text \<open>
  The hooks hold the mutex for their whole body, so the invocations of all threads
  form one sequence. \<open>run\<close> gives the states after each invocation of the sequence,
  in order, up to the first failed assertion.
\<close>

fun run :: "build \<Rightarrow> hook_call list \<Rightarrow> arena \<Rightarrow> arena list" where
  "run b [] s = []"
| "run b (c # cs) s =
     (case invoke b c s of
        Inl e \<Rightarrow> []
      | Inr s' \<Rightarrow> s' # run b cs s')"

text \<open>
  The build without capabilities (\<open>__CHERI_PURE_CAPABILITY__\<close> not defined): the two
  primitives are never called.
\<close>

definition plain_build :: build where
  "plain_build =
     \<lparr>pure_capability = False,
      cheri_representable_alignment_mask = (\<lambda>n. - 1),
      cheri_representable_length = (\<lambda>n. n)\<rparr>"

section \<open>The alignment of the specification\<close>

text \<open>
  Follows the words of the specification, not the source: \<open>alignUp(current, alignment)\<close>
  is the least multiple of the alignment that is not below the cursor, on unbounded
  naturals. The code's \<open>builtin_align_up\<close> is compared with it below.
\<close>

definition spec_alignUp :: "nat \<Rightarrow> nat \<Rightarrow> nat" where
  "spec_alignUp n a = ((n + a - 1) div a) * a"

section \<open>Facts about words\<close>

lemma no_wrap_iff: "\<not> (a + sz < a) \<longleftrightarrow> unat a + unat sz < 2 ^ 64" for a sz :: "64 word"
  using no_olen_add_nat [of a sz] by (simp add: not_less)

lemma unat_plus_no_wrap:
  "unat a + unat sz < 2 ^ 64 \<Longrightarrow> unat (a + sz) = unat a + unat sz" for a sz :: "64 word"
  by (simp add: unat_add_lem [THEN iffD1])

lemma pow2_nat: "0 < n \<Longrightarrow> (n - 1) AND n = (0::nat) \<Longrightarrow> \<exists>k. n = 2 ^ k"
proof (induction n rule: nat_bit_induct)
  case zero
  then show ?case by simp
next
  case (even n)
  have d: "(2 * n - Suc 0) div 2 = n - Suc 0" using even(2) by arith
  have "(2 * n - 1) AND (2 * n) = 2 * ((n - 1) AND n)"
    using even(2) by (subst and_nat_rec) (simp add: d)
  then have "(n - 1) AND n = 0" using even by simp
  then obtain k where "n = 2 ^ k" using even by blast
  then have "2 * n = 2 ^ Suc k" by simp
  then show ?case by blast
next
  case (odd n)
  have "(Suc (2 * n) - 1) AND Suc (2 * n) = 2 * n"
    by (subst and_nat_rec) auto
  then have "n = 0" using odd by simp
  then have "Suc (2 * n) = 2 ^ 0" by simp
  then show ?case by blast
qed

lemma hasOneBitSet_power:
  assumes "hasOneBitSet v"
  shows "\<exists>k<64. v = 2 ^ k \<and> unat v = 2 ^ k"
proof -
  from assms have nz: "v \<noteq> 0" and z: "(v - 1) AND v = 0"
    by (simp_all add: hasOneBitSet_def)
  have "unat ((v - 1) AND v) = (unat v - 1) AND unat v"
    using nz by (simp add: unsigned_and_eq unat_minus_one)
  then have "(unat v - 1) AND unat v = 0" using z by simp
  moreover have "0 < unat v" using nz by (simp add: unat_gt_0)
  ultimately obtain k where k: "unat v = 2 ^ k" using pow2_nat by blast
  have "(2::nat) ^ k < 2 ^ LENGTH(64)" using unsigned_less [of v] k by metis
  then have "k < LENGTH(64)" by (rule power_less_imp_less_exp [rotated]) simp
  then have "k < 64" by simp
  moreover have "word_of_nat (unat v) = (word_of_nat (2 ^ k) :: 64 word)"
    using k by simp
  then have "v = 2 ^ k" by simp
  ultimately show ?thesis using k by blast
qed

lemma power_hasOneBitSet: "k < 64 \<Longrightarrow> hasOneBitSet (2 ^ k)"
proof -
  assume k: "k < 64"
  have "mask k AND (2 ^ k :: 64 word) = 0"
    by (rule bit_eqI) (auto simp add: bit_simps)
  moreover have "(2 ^ k :: 64 word) \<noteq> 0" using k by simp
  ultimately show ?thesis by (simp add: hasOneBitSet_def mask_eq_exp_minus_1)
qed

lemma low_bits_mod:
  assumes "(r :: 64 word) AND (2 ^ k - 1) = 0"
  shows "unat r mod 2 ^ k = 0"
proof -
  have "take_bit k r = 0" using assms by (simp add: take_bit_eq_mask mask_eq_exp_minus_1)
  then have "unat (take_bit k r) = 0" by (simp only: unsigned_0)
  then have "take_bit k (unat r) = 0" by (simp only: unsigned_take_bit_eq)
  then show ?thesis by (simp only: take_bit_eq_mod)
qed

section \<open>Facts about \<open>__builtin_align_up\<close>\<close>

lemma align_up_low_bits: "builtin_align_up p a AND (a - 1) = 0"
  by (simp add: builtin_align_up_def and.assoc)

lemma align_up_le: "builtin_align_up p a \<le> p + (a - 1)"
  unfolding builtin_align_up_def by (rule word_and_le2)

lemma align_up_bound:
  assumes "p \<le> builtin_align_up p a"
  shows "unat (builtin_align_up p a) \<le> unat p + unat (a - 1)"
proof -
  have "p \<le> p + (a - 1)" using assms align_up_le [of p a] by (rule order_trans)
  then have "unat (p + (a - 1)) = unat p + unat (a - 1)"
    by (simp add: no_olen_add_nat unat_plus_no_wrap)
  then show ?thesis using align_up_le [of p a] by (simp add: word_le_nat_alt)
qed

text \<open>
  When the result is not below the pointer (the addition did not wrap), it is the
  least multiple of the alignment that is at or above the pointer.
\<close>

lemma align_up_least_multiple:
  assumes a: "hasOneBitSet a" and le: "p \<le> builtin_align_up p a"
  shows "unat (builtin_align_up p a) mod unat a = 0 \<and>
         unat p \<le> unat (builtin_align_up p a) \<and>
         unat (builtin_align_up p a) < unat p + unat a"
proof -
  from a obtain k where k: "k < 64" "a = 2 ^ k" "unat a = 2 ^ k"
    using hasOneBitSet_power by blast
  have nz: "a \<noteq> 0" using a by (simp add: hasOneBitSet_def)
  have "builtin_align_up p a AND (2 ^ k - 1) = 0"
    using align_up_low_bits [of p a] k(2) by simp
  then have "unat (builtin_align_up p a) mod 2 ^ k = 0" by (rule low_bits_mod)
  then have m: "unat (builtin_align_up p a) mod unat a = 0" by (simp only: k(3))
  have "unat (a - 1) = unat a - 1" using nz by (simp add: unat_minus_one)
  moreover have "0 < unat a" using nz by (simp add: unat_gt_0)
  ultimately have "unat (builtin_align_up p a) < unat p + unat a"
    using align_up_bound [OF le] by arith
  moreover have "unat p \<le> unat (builtin_align_up p a)"
    using le by (simp add: word_le_nat_alt)
  ultimately show ?thesis using m by blast
qed

lemma spec_alignUp_unique:
  assumes "0 < a" "x mod a = 0" "n \<le> x" "x < n + a"
  shows "spec_alignUp n a = x"
proof -
  from assms(2) obtain q where q: "x = a * q" by auto
  have "(n + a - 1) div a = q"
  proof (rule div_nat_eqI)
    show "a * q \<le> n + a - 1" using assms q by simp
    have "n + a - 1 < a * q + a" using assms q by simp
    then show "n + a - 1 < a * Suc q" by simp
  qed
  then show ?thesis by (simp add: spec_alignUp_def q)
qed

lemma align_up_refines:
  assumes a: "hasOneBitSet a" and le: "p \<le> builtin_align_up p a"
  shows "unat (builtin_align_up p a) = spec_alignUp (unat p) (unat a)"
proof -
  have "0 < unat a" using a by (simp add: hasOneBitSet_def unat_gt_0)
  then show ?thesis
    using align_up_least_multiple [OF a le] spec_alignUp_unique [of "unat a" "unat (builtin_align_up p a)" "unat p"]
    by simp
qed

lemma align_up_no_wrap:
  assumes "unat p + unat (a - 1) < 2 ^ 64"
  shows "p \<le> builtin_align_up p a"
proof -
  let ?y = "p + (a - 1)"
  have y: "unat ?y = unat p + unat (a - 1)" using assms by (rule unat_plus_no_wrap)
  have "?y AND (a - 1) \<le> a - 1" by (rule word_and_le1)
  then have m: "unat (?y AND (a - 1)) \<le> unat (a - 1)" by (simp add: word_le_nat_alt)
  have "?y AND (a - 1) \<le> ?y" by (rule word_and_le2)
  then have "unat (?y - (?y AND (a - 1))) = unat ?y - unat (?y AND (a - 1))"
    by (rule unat_sub)
  moreover have "builtin_align_up p a = ?y - (?y AND (a - 1))"
    unfolding builtin_align_up_def
    by (simp add: bit.conj_disj_distrib disjunctive_diff_eq_and_not
    word_bw_comms(1) word_bw_lcs(1))
  ultimately have "unat (builtin_align_up p a) = unat p + unat (a - 1) - unat (?y AND (a - 1))"
    using y by simp
  then have "unat p \<le> unat (builtin_align_up p a)" using m by arith
  then show ?thesis by (simp add: word_le_nat_alt)
qed

lemma align_up_wrapped:
  assumes a: "hasOneBitSet a" and wr: "\<not> p \<le> builtin_align_up p a"
  shows "2 ^ 64 \<le> spec_alignUp (unat p) (unat a)"
proof -
  from a obtain k where k: "k < 64" "a = 2 ^ k" "unat a = 2 ^ k"
    using hasOneBitSet_power by blast
  have nz: "a \<noteq> 0" using a by (simp add: hasOneBitSet_def)
  have "unat (a - 1) = unat a - 1" using nz by (simp add: unat_minus_one)
  moreover have "\<not> unat p + unat (a - 1) < 2 ^ 64" using wr align_up_no_wrap by blast
  ultimately have big: "(2::nat) ^ 64 \<le> unat p + 2 ^ k - 1" using k(3) by simp
  have e: "(2::nat) ^ 64 = 2 ^ (64 - k) * 2 ^ k"
    using k(1) by (simp add: power_add [symmetric])
  then have "(2::nat) ^ (64 - k) * 2 ^ k \<le> unat p + 2 ^ k - 1" using big by simp
  then have "(2::nat) ^ (64 - k) \<le> (unat p + 2 ^ k - 1) div 2 ^ k"
    by (simp add: less_eq_div_iff_mult_less_eq)
  then have "(2::nat) ^ (64 - k) * 2 ^ k \<le> (unat p + 2 ^ k - 1) div 2 ^ k * 2 ^ k"
    by (rule mult_le_mono1)
  then have "(2::nat) ^ 64 \<le> (unat p + 2 ^ k - 1) div 2 ^ k * 2 ^ k"
    by (simp only: e)
  then show ?thesis by (simp only: spec_alignUp_def k(3))
qed

section \<open>Facts about range validation\<close>

lemma isValidRange_window_ok:
  "window_ok s \<Longrightarrow> isValidRange s a sz =
     Inr (unat a + unat sz < 2 ^ 64 \<and> unat (s_Start s) \<le> unat a \<and> unat a \<le> unat (s_End s) \<and>
          unat (s_Start s) \<le> unat a + unat sz \<and> unat a + unat sz \<le> unat (s_End s))"
  unfolding isValidRange_def ASSERT_def window_ok_def Let_def
  using no_wrap_iff [of a sz] unat_plus_no_wrap [of a sz]
  by (auto simp add: word_le_nat_alt)

lemma isValidRange_not_window_ok:
  "\<not> window_ok s \<Longrightarrow> isValidRange s a sz = Inl AssertionFailure"
  unfolding isValidRange_def ASSERT_def window_ok_def by auto

lemma isAvailableRange_window_ok:
  "window_ok s \<Longrightarrow> isAvailableRange s a sz =
     Inr (unat (s_Current s) \<le> unat a \<and> unat a + unat sz \<le> unat (s_End s))"
  using unsigned_less [of "s_End s", where 'a=nat]
  by (auto simp add: isAvailableRange_def isValidRange_window_ok window_ok_def word_le_nat_alt)

lemma isAllocatedRange_window_ok:
  "window_ok s \<Longrightarrow> isAllocatedRange s a sz =
     Inr (unat (s_Start s) \<le> unat a \<and> unat a + unat sz \<le> unat (s_Current s))"
  using unsigned_less [of "s_End s", where 'a=nat] unat_plus_no_wrap [of a sz]
  by (auto simp add: isAllocatedRange_def isValidRange_window_ok window_ok_def word_le_nat_alt)

lemma isAvailableRange_not_window_ok:
  "\<not> window_ok s \<Longrightarrow> isAvailableRange s a sz = Inl AssertionFailure"
  by (simp add: isAvailableRange_def isValidRange_not_window_ok)

lemma isAllocatedRange_not_window_ok:
  "\<not> window_ok s \<Longrightarrow> isAllocatedRange s a sz = Inl AssertionFailure"
  by (simp add: isAllocatedRange_def isValidRange_not_window_ok)

section \<open>Facts about the purge hooks\<close>

lemma purge_asserts:
  assumes al: "isAllocatedRange s a sz = Inr True" and fit: "unat off + unat len \<le> unat sz"
  shows "off \<le> sz \<and> off + len \<le> sz \<and> isAllocatedRange s (a + off) len = Inr True"
proof -
  have w: "window_ok s"
    using al by (cases "window_ok s") (simp_all add: isAllocatedRange_not_window_ok)
  from al w have b: "unat (s_Start s) \<le> unat a" "unat a + unat sz \<le> unat (s_Current s)"
    by (simp_all add: isAllocatedRange_window_ok)
  have lt: "unat (s_Current s) < 2 ^ 64" using unsigned_less [of "s_Current s", where 'a=nat] by simp
  have szlt: "unat sz < 2 ^ 64" using unsigned_less [of sz, where 'a=nat] by simp
  have 1: "unat (off + len) = unat off + unat len"
    using fit szlt by (simp add: unat_plus_no_wrap)
  have 2: "unat (a + off) = unat a + unat off"
    using fit b lt by (simp add: unat_plus_no_wrap)
  show ?thesis
    using w b fit 1 2 by (simp add: isAllocatedRange_window_ok word_le_nat_alt)
qed

lemma purge_common_returns:
  assumes "extentPurgeCommon os_ok s a sz off len = Inr (r, s')"
  shows "r = False \<and> s_Current s' = s_Current s \<and> s_Start s' = s_Start s \<and> s_End s' = s_End s"
  using assms
  by (auto simp add: extentPurgeCommon_def ASSERT_def mmap_fixed_def Let_def
        split: sum.splits if_splits)

lemma purge_common_pre:
  assumes "isAllocatedRange s a sz = Inr True" "unat off + unat len \<le> unat sz" "os_ok"
  shows "extentPurgeCommon os_ok s a sz off len =
           Inr (False, s\<lparr>mapped := (a + off, len, AnonReadWrite) # mapped s\<rparr>)"
  using purge_asserts [OF assms(1,2)] assms
  by (simp add: extentPurgeCommon_def ASSERT_def mmap_fixed_def)

section \<open>Facts about \<open>extentAlloc\<close>\<close>

lemma widen_result:
  assumes "hasOneBitSet alignment" "sz \<noteq> 0" "widen b sz alignment = Inr (sz', al')"
  shows "sz \<le> sz' \<and> sz' \<noteq> 0 \<and> hasOneBitSet al' \<and>
         (\<not> pure_capability b \<longrightarrow> sz' = sz \<and> al' = alignment)"
  using assms
  by (auto simp add: widen_def ASSERT_def Let_def split: if_splits)

lemma available_not_MAP_FAILED:
  assumes "unat start + unat sz' \<le> unat (e :: 64 word)" "sz' \<noteq> 0"
  shows "start \<noteq> MAP_FAILED"
proof
  assume "start = MAP_FAILED"
  then have "unat start = 2 ^ 64 - 1" by (simp add: MAP_FAILED_def unsigned_minus_1_eq_mask mask_eq_exp_minus_1)
  moreover have "0 < unat sz'" using assms(2) by (simp add: unat_gt_0)
  moreover have "unat e < 2 ^ 64" using unsigned_less [of e, where 'a=nat] by simp
  ultimately show False using assms(1) by simp
qed

lemma extentAlloc_char:
  "extentAlloc b os_ok s new_addr sz alignment zero commit =
    (if new_addr \<noteq> 0 \<or> sz = 0 then Inr (0, zero, commit, s)
     else if \<not> hasOneBitSet alignment then Inl AssertionFailure
     else case widen b sz alignment of
       Inl e \<Rightarrow> Inl e
     | Inr (sz', al') \<Rightarrow>
         if \<not> window_ok s then Inl AssertionFailure
         else if unat (s_Current s) \<le> unat (builtin_align_up (s_Current s) al') \<and>
                 unat (builtin_align_up (s_Current s) al') + unat sz' \<le> unat (s_End s) \<and> os_ok
         then Inr (builtin_align_up (s_Current s) al', True, True,
                   s\<lparr>mapped := (builtin_align_up (s_Current s) al', sz', AnonReadWrite) # mapped s,
                     s_Current := builtin_align_up (s_Current s) al' + sz'\<rparr>)
         else Inr (0, zero, commit, s))"
proof (cases "new_addr \<noteq> 0 \<or> sz = 0")
  case True
  then show ?thesis by (auto simp add: extentAlloc_def)
next
  case False
  note nf = False
  show ?thesis
  proof (cases "hasOneBitSet alignment")
    case False
    then show ?thesis using nf by (simp add: extentAlloc_def ASSERT_def)
  next
    case True
    note al = True
    show ?thesis
    proof (cases "widen b sz alignment")
      case (Inl e)
      then show ?thesis using nf al by (simp add: extentAlloc_def ASSERT_def)
    next
      case (Inr p)
      obtain sz' al' where p: "p = (sz', al')" by (cases p)
      have wr: "sz' \<noteq> 0" using widen_result [OF al _ Inr [unfolded p]] nf by simp
      show ?thesis
      proof (cases "window_ok s")
        case False
        then show ?thesis using nf al Inr p
          by (simp add: extentAlloc_def ASSERT_def isAvailableRange_not_window_ok)
      next
        case True
        show ?thesis using nf al Inr p True available_not_MAP_FAILED [OF _ wr]
          by (auto simp add: extentAlloc_def ASSERT_def isAvailableRange_window_ok mmap_fixed_def Let_def split: bool.splits)
      qed
    qed
  qed
qed

lemma widen_keeps_alignment:
  assumes "widen b sz alignment = Inr (sz', al')"
  shows "(alignment - 1) AND NOT (al' - 1) = 0"
proof (cases "pure_capability b")
  case False
  then show ?thesis using assms by (simp add: widen_def)
next
  case True
  then have "al' = - ((- alignment) AND cheri_representable_alignment_mask b sz)"
    using assms by (auto simp add: widen_def ASSERT_def Let_def split: if_splits)
  then have "NOT (al' - 1) = NOT (alignment - 1) AND cheri_representable_alignment_mask b sz"
    by (simp add: minus_eq_not_minus_1 [symmetric])
  then show ?thesis by (simp add: and.assoc [symmetric])
qed

lemma low_bits_subset:
  assumes "(r :: 64 word) AND m' = 0" "m AND NOT m' = 0"
  shows "r AND m = 0"
proof -
  have "r AND m = (r AND m) AND (m' OR NOT m')" by simp
  also have "\<dots> = ((r AND m') AND m) OR (r AND (m AND NOT m'))"
    by (simp only: bit.conj_disj_distrib and.assoc and.commute and.left_commute)
  also have "\<dots> = 0" by (simp only: assms) simp
  finally show ?thesis .
qed

lemma extentAlloc_success_state:
  assumes ok: "extentAlloc b os_ok s new_addr sz alignment zero commit = Inr (r, z, c, s')"
      and nn: "r \<noteq> 0"
  shows "new_addr = 0 \<and> sz \<noteq> 0 \<and> hasOneBitSet alignment \<and> window_ok s \<and> os_ok \<and>
         (\<exists>sz' al'. widen b sz alignment = Inr (sz', al') \<and>
            r = builtin_align_up (s_Current s) al' \<and>
            unat (s_Current s) \<le> unat r \<and> unat r + unat sz' \<le> unat (s_End s) \<and>
            z \<and> c \<and>
            s' = s\<lparr>mapped := (r, sz', AnonReadWrite) # mapped s, s_Current := r + sz'\<rparr>)"
  using ok nn
  by (auto simp add: extentAlloc_char split: if_splits sum.splits)

lemma extentAlloc_null_state:
  assumes ok: "extentAlloc b os_ok s new_addr sz alignment zero commit = Inr (r, z, c, s')"
      and nn: "r = 0"
  shows "z = zero \<and> c = commit \<and> s' = s"
proof (cases "window_ok s")
  case True
  then have "s_Current s \<noteq> 0" by (auto simp add: window_ok_def)
  then have "unat (s_Current s) \<noteq> 0" by (simp add: unat_eq_0)
  then show ?thesis using ok nn
    by (auto simp add: extentAlloc_char split: if_splits sum.splits)
next
  case False
  then show ?thesis using ok nn
    by (auto simp add: extentAlloc_char split: if_splits sum.splits)
qed

section \<open>Facts about sequences of hook invocations\<close>

lemma alloc_step:
  assumes "extentAlloc b os_ok s new_addr sz alignment zero commit = Inr (r, z, c, s')"
  shows "s_Start s' = s_Start s \<and> s_End s' = s_End s \<and> s_Current s \<le> s_Current s' \<and>
         (window_ok s \<longrightarrow> window_ok s')"
proof (cases "r = 0")
  case True
  then show ?thesis using extentAlloc_null_state [OF assms] by simp
next
  case False
  from extentAlloc_success_state [OF assms False] obtain sz' where
    f: "window_ok s" "unat (s_Current s) \<le> unat r" "unat r + unat sz' \<le> unat (s_End s)"
       "s' = s\<lparr>mapped := (r, sz', AnonReadWrite) # mapped s, s_Current := r + sz'\<rparr>"
    by blast
  have "unat (s_End s) < 2 ^ 64" using unsigned_less [of "s_End s", where 'a=nat] by simp
  then have "unat (r + sz') = unat r + unat sz'"
    using f(3) by (simp add: unat_plus_no_wrap)
  then show ?thesis using f by (simp add: window_ok_def word_le_nat_alt)
qed

lemma destroy_step:
  assumes "extentDestroy os_ok s a sz committed = Inr s'"
  shows "s_Start s' = s_Start s \<and> s_End s' = s_End s \<and> s_Current s' = s_Current s"
  using assms
  by (auto simp add: extentDestroy_def ASSERT_def mmap_fixed_def split: sum.splits if_splits)

lemma invoke_step:
  assumes "invoke b c s = Inr s'"
  shows "s_Start s' = s_Start s \<and> s_End s' = s_End s \<and> s_Current s \<le> s_Current s' \<and>
         (window_ok s \<longrightarrow> window_ok s') \<and> (\<not> is_Alloc c \<longrightarrow> s_Current s' = s_Current s)"
proof (cases c)
  case (Alloc os_ok new_addr sz alignment zero commit)
  then obtain r z c' where "extentAlloc b os_ok s new_addr sz alignment zero commit = Inr (r, z, c', s')"
    using assms by (auto split: sum.splits)
  then show ?thesis using alloc_step Alloc by simp
next
  case (Destroy os_ok a sz committed)
  then show ?thesis using assms destroy_step [of os_ok s a sz committed s']
    by (simp add: window_ok_def)
next
  case (PurgeLazy os_ok a sz off len)
  then obtain r where "extentPurgeCommon os_ok s a sz off len = Inr (r, s')"
    using assms by (auto simp add: extentPurgeLazy_def split: sum.splits)
  then show ?thesis using purge_common_returns PurgeLazy by (simp add: window_ok_def)
next
  case (PurgeForced os_ok a sz off len)
  then obtain r where "extentPurgeCommon os_ok s a sz off len = Inr (r, s')"
    using assms by (auto simp add: extentPurgeForced_def split: sum.splits)
  then show ?thesis using purge_common_returns PurgeForced by (simp add: window_ok_def)
qed

lemma run_invariant:
  "t \<in> set (run b cs s) \<Longrightarrow>
     s_Start t = s_Start s \<and> s_End t = s_End s \<and> s_Current s \<le> s_Current t \<and>
     (window_ok s \<longrightarrow> window_ok t)"
proof (induction cs arbitrary: s)
  case Nil
  then show ?case by simp
next
  case (Cons c cs)
  show ?case
  proof (cases "invoke b c s")
    case (Inl e)
    then show ?thesis using Cons.prems by simp
  next
    case (Inr s1)
    note st = invoke_step [OF Inr]
    from Cons.prems Inr have "t = s1 \<or> t \<in> set (run b cs s1)" by simp
    then show ?thesis
    proof
      assume "t = s1"
      then show ?thesis using st by simp
    next
      assume "t \<in> set (run b cs s1)"
      then have "s_Start t = s_Start s1 \<and> s_End t = s_End s1 \<and> s_Current s1 \<le> s_Current t \<and>
              (window_ok s1 \<longrightarrow> window_ok t)" by (rule Cons.IH)
      then show ?thesis using st by auto
    qed
  qed
qed

lemma run_sorted: "sorted (map s_Current (s # run b cs s))"
proof (induction cs arbitrary: s)
  case Nil
  then show ?case by simp
next
  case (Cons c cs)
  show ?case
  proof (cases "invoke b c s")
    case (Inl e)
    then show ?thesis by simp
  next
    case (Inr s1)
    have 1: "s_Current s \<le> s_Current s1" using invoke_step [OF Inr] by simp
    have "s_Current s \<le> s_Current t" if "t \<in> set (run b cs s1)" for t
    proof -
      have "s_Current s1 \<le> s_Current t" using run_invariant [OF that] by simp
      then show ?thesis using 1 by (rule order_trans [rotated])
    qed
    then show ?thesis using 1 Cons.IH [of s1] Inr by auto
  qed
qed

section \<open>Facts about the alignment scenario\<close>

lemma scenario_first:
  assumes al: "unat B mod 2 ^ 20 = 0" and nz: "B \<noteq> 0" and nw: "unat B + 2 ^ 20 < 2 ^ 64"
      and w1: "widen b 4096 4096 = Inr (4096, 4096)"
  shows "extentAlloc b True (initialize_window B 1048576) 0 4096 4096 z c =
           Inr (B, True, True,
                (initialize_window B 1048576)
                  \<lparr>mapped := (B, 4096, AnonReadWrite) # mapped (initialize_window B 1048576),
                    s_Current := B + 4096\<rparr>)"
proof -
  let ?s = "initialize_window B 1048576"
  have e: "unat (B + 1048576) = unat B + 1048576"
    using nw unat_plus_no_wrap [of B 1048576] by simp
  have w: "window_ok ?s"
    using nz e by (simp add: window_ok_def initialize_window_def word_le_nat_alt)
  have h: "hasOneBitSet 4096" by (simp add: hasOneBitSet_def)
  have "(4096::nat) dvd 2 ^ 20" by simp
  moreover have "(2::nat) ^ 20 dvd unat B" using al by (simp add: dvd_eq_mod_eq_0)
  ultimately have "4096 dvd unat B" by (rule dvd_trans)
  then have m: "unat B mod 4096 = 0" by simp
  have "B \<le> builtin_align_up B 4096"
    using nw by (intro align_up_no_wrap) simp
  then have "unat (builtin_align_up B 4096) = spec_alignUp (unat B) (unat (4096 :: 64 word))"
    by (rule align_up_refines [OF h])
  also have "\<dots> = unat B"
    using m by (intro spec_alignUp_unique) simp_all
  finally have a: "builtin_align_up B 4096 = B" by (simp add: word_unat_eq_iff)
  show ?thesis
    using w w1 h a e
    by (simp add: extentAlloc_char) (simp add: initialize_window_def)
qed

lemma scenario_second:
  assumes al: "unat B mod 2 ^ 20 = 0" and nz: "B \<noteq> 0" and nw: "unat B + 2 ^ 20 < 2 ^ 64"
      and w2: "widen b 4096 8192 = Inr (4096, 8192)"
      and s1: "s_Start s1 = B" "s_End s1 = B + 1048576" "s_Current s1 = B + 4096"
  shows "extentAlloc b True s1 0 4096 8192 z c =
           Inr (B + 8192, True, True,
                s1\<lparr>mapped := (B + 8192, 4096, AnonReadWrite) # mapped s1,
                   s_Current := B + 12288\<rparr>)"
proof -
  have e: "unat (B + 1048576) = unat B + 1048576"
    using nw unat_plus_no_wrap [of B 1048576] by simp
  have e1: "unat (B + 4096) = unat B + 4096"
    using nw unat_plus_no_wrap [of B 4096] by simp
  have e2: "unat (B + 8192) = unat B + 8192"
    using nw unat_plus_no_wrap [of B 8192] by simp
  have w: "window_ok s1"
    using nz e e1 s1 by (simp add: window_ok_def word_le_nat_alt)
  have h: "hasOneBitSet 8192" by (simp add: hasOneBitSet_def)
  have "(8192::nat) dvd 2 ^ 20" by simp
  moreover have "(2::nat) ^ 20 dvd unat B" using al by (simp add: dvd_eq_mod_eq_0)
  ultimately have "8192 dvd unat B" by (rule dvd_trans)
  then have m: "(unat B + 8192) mod 8192 = 0" by simp
  have "B + 4096 \<le> builtin_align_up (B + 4096) 8192"
    using nw e1 by (intro align_up_no_wrap) simp
  then have "unat (builtin_align_up (B + 4096) 8192) =
               spec_alignUp (unat (B + 4096)) (unat (8192 :: 64 word))"
    by (rule align_up_refines [OF h])
  also have "\<dots> = unat B + 8192"
    using m e1 by (intro spec_alignUp_unique) simp_all
  finally have a: "builtin_align_up (B + 4096) 8192 = B + 8192"
    using e2 by (simp add: word_unat_eq_iff)
  show ?thesis
    using w w2 h a e e1 e2 s1
    by (simp add: extentAlloc_char)
qed

lemma later_allocations_above_cursor:
  assumes "t = s \<or> t \<in> set (run b cs s)"
      and "extentAlloc b os_ok t new_addr sz alignment zero commit = Inr (r, zo, co, t')"
      and "r \<noteq> 0"
  shows "unat (s_Current s) \<le> unat r"
proof -
  have "s_Current s \<le> s_Current t"
    using assms(1) run_invariant [of t b cs s] by auto
  moreover have "unat (s_Current t) \<le> unat r"
    using extentAlloc_success_state [OF assms(2,3)] by blast
  ultimately show ?thesis by (simp add: word_le_nat_alt)
qed

section \<open>Range validation claims\<close>

text \<open>
  C4. In a state that passes the assertions of \<open>isValidRange\<close>, the predicate returns
  true exactly when the unsigned sum of the address and the size does not wrap around
  modulo \<open>2 ^ 64\<close> and both the address and the address plus the size lie in the
  window, both endpoints of the window included; otherwise it returns false.
\<close>

theorem isValidRange_iff:
  assumes "window_ok s"
  shows "isValidRange s a sz =
     Inr (unat a + unat sz < 2 ^ 64 \<and>
          s_Start s \<le> a \<and> a \<le> s_End s \<and> s_Start s \<le> a + sz \<and> a + sz \<le> s_End s)"
  using assms unat_plus_no_wrap [of a sz]
  by (auto simp add: isValidRange_window_ok word_le_nat_alt)

theorem isValidRange_iff_witness:
  "window_ok (initialize_window 1048576 1048576) \<and>
   isValidRange (initialize_window 1048576 1048576) 1048576 4096 = Inr True \<and>
   isValidRange (initialize_window 1048576 1048576) 2097152 1 = Inr False \<and>
   isValidRange (initialize_window 1048576 1048576) 2097152 18446744073709551615 = Inr False"
proof -
  have w: "window_ok (initialize_window 1048576 1048576)"
    by (simp add: window_ok_def initialize_window_def)
  show ?thesis
    using w isValidRange_iff [OF w, of 1048576 4096] isValidRange_iff [OF w, of 2097152 1]
      isValidRange_iff [OF w, of 2097152 18446744073709551615]
    by (simp add: initialize_window_def)
qed

text \<open>
  C5. In a state that passes the assertions, \<open>isAllocatedRange\<close> returns true exactly
  when \<open>isValidRange\<close> does and the address plus the size is at most the cursor, and
  \<open>isAvailableRange\<close> returns true exactly when \<open>isValidRange\<close> does and the address is
  not below the cursor; otherwise they return false.
\<close>

theorem allocated_available_iff:
  assumes "window_ok s"
  shows "isAllocatedRange s a sz =
           Inr (isValidRange s a sz = Inr True \<and> unat a + unat sz \<le> unat (s_Current s)) \<and>
         isAvailableRange s a sz =
           Inr (isValidRange s a sz = Inr True \<and> unat (s_Current s) \<le> unat a)"
  using assms unsigned_less [of "s_End s", where 'a=nat]
  by (auto simp add: isValidRange_window_ok isAllocatedRange_window_ok isAvailableRange_window_ok
       window_ok_def word_le_nat_alt)

theorem allocated_available_iff_witness:
  "window_ok (initialize_window 1048576 1048576) \<and>
   isAllocatedRange (initialize_window 1048576 1048576) 1048576 4096 = Inr False \<and>
   isAvailableRange (initialize_window 1048576 1048576) 1048576 4096 = Inr True"
proof -
  have w: "window_ok (initialize_window 1048576 1048576)"
    by (simp add: window_ok_def initialize_window_def)
  have v: "isValidRange (initialize_window 1048576 1048576) 1048576 4096 = Inr True"
    by (simp add: isValidRange_window_ok [OF w]) (simp add: initialize_window_def)
  show ?thesis
    using w v allocated_available_iff [OF w, of 1048576 4096]
    by (simp add: initialize_window_def)
qed

text \<open>
  C10. For a size greater than zero, \<open>isAllocatedRange\<close> and \<open>isAvailableRange\<close> are
  never both true of the same range in the same state.
\<close>

theorem allocated_available_exclusive:
  assumes "sz \<noteq> 0"
  shows "\<not> (isAllocatedRange s a sz = Inr True \<and> isAvailableRange s a sz = Inr True)"
proof (cases "window_ok s")
  case True
  have "0 < unat sz" using assms by (simp add: unat_gt_0)
  then show ?thesis
    using True by (auto simp add: isAllocatedRange_window_ok isAvailableRange_window_ok)
next
  case False
  then show ?thesis by (simp add: isAllocatedRange_not_window_ok)
qed

theorem allocated_available_exclusive_witness:
  "(4096 :: 64 word) \<noteq> 0 \<and>
   isAvailableRange (initialize_window 1048576 1048576) 1048576 4096 = Inr True \<and>
   isAllocatedRange (initialize_window 1048576 1048576) 1048576 4096 \<noteq> Inr True"
proof -
  have n: "(4096 :: 64 word) \<noteq> 0" by simp
  have w: "window_ok (initialize_window 1048576 1048576)"
    by (simp add: window_ok_def initialize_window_def)
  have v: "isAvailableRange (initialize_window 1048576 1048576) 1048576 4096 = Inr True"
    by (simp add: isAvailableRange_window_ok [OF w]) (simp add: initialize_window_def)
  show ?thesis
    using n v allocated_available_exclusive [OF n, of "initialize_window 1048576 1048576" 1048576]
    by simp
qed

section \<open>Destroy and purge claims\<close>

text \<open>
  C8. Whenever \<open>extentDestroy\<close> returns, the cursor and the two bounds of the window are
  what they were at entry. On a range that lies in the allocated region (its
  precondition), and when the operating system performs the guard mapping, it does
  return, and the only change of state is that mapping.
\<close>

theorem destroy_frame:
  "(\<forall>s'. extentDestroy os_ok s a sz committed = Inr s' \<longrightarrow>
      s_Current s' = s_Current s \<and> s_Start s' = s_Start s \<and> s_End s' = s_End s) \<and>
   (isAllocatedRange s a sz = Inr True \<and> os_ok \<longrightarrow>
      extentDestroy os_ok s a sz committed = Inr (s\<lparr>mapped := (a, sz, GuardMapping) # mapped s\<rparr>))"
  by (auto simp add: extentDestroy_def ASSERT_def mmap_fixed_def split: sum.splits if_splits)

theorem destroy_frame_witness:
  "isAllocatedRange ((initialize_window 1048576 1048576)\<lparr>s_Current := 1052672\<rparr>) 1048576 4096 = Inr True \<and>
   extentDestroy True ((initialize_window 1048576 1048576)\<lparr>s_Current := 1052672\<rparr>) 1048576 4096 True =
     Inr ((initialize_window 1048576 1048576)
            \<lparr>s_Current := 1052672,
              mapped := [(1048576, 4096, GuardMapping), (1048576, 1048576, GuardMapping)]\<rparr>)"
proof -
  let ?s = "(initialize_window 1048576 1048576)\<lparr>s_Current := 1052672\<rparr>"
  have a: "isAllocatedRange ?s 1048576 4096 = Inr True"
    by (simp add: isAllocatedRange_def isValidRange_def ASSERT_def initialize_window_def)
  show ?thesis
    using a destroy_frame [of True ?s 1048576 4096 True] by (simp add: initialize_window_def)
qed

text \<open>
  C6. \<open>extentPurgeLazy\<close> and \<open>extentPurgeForced\<close> give the same result and the same state
  on every input. Whenever they return, the value returned is \<open>false\<close>, which is the
  value the host allocator reads as a purge that succeeded, and the cursor and the
  bounds are unchanged. When the range lies in the allocated region, the offset plus
  the length is at most the size and the operating system performs the mapping, they
  return, and the only change of state is the fresh read-write mapping of the
  sub-portion.
\<close>

theorem purge_lazy_forced:
  "extentPurgeLazy os_ok s a sz off len = extentPurgeForced os_ok s a sz off len \<and>
   (\<forall>r s'. extentPurgeLazy os_ok s a sz off len = Inr (r, s') \<longrightarrow>
      r = False \<and> s_Current s' = s_Current s \<and> s_Start s' = s_Start s \<and> s_End s' = s_End s) \<and>
   (isAllocatedRange s a sz = Inr True \<and> unat off + unat len \<le> unat sz \<and> os_ok \<longrightarrow>
      extentPurgeLazy os_ok s a sz off len =
        Inr (False, s\<lparr>mapped := (a + off, len, AnonReadWrite) # mapped s\<rparr>))"
proof (intro conjI allI impI)
  show "extentPurgeLazy os_ok s a sz off len = extentPurgeForced os_ok s a sz off len"
    by (simp add: extentPurgeLazy_def extentPurgeForced_def)
next
  fix r s'
  assume "extentPurgeLazy os_ok s a sz off len = Inr (r, s')"
  then have c: "extentPurgeCommon os_ok s a sz off len = Inr (r, s')"
    by (simp add: extentPurgeLazy_def)
  show "r = False" using purge_common_returns [OF c] by blast
  show "s_Current s' = s_Current s" using purge_common_returns [OF c] by blast
  show "s_Start s' = s_Start s" using purge_common_returns [OF c] by blast
  show "s_End s' = s_End s" using purge_common_returns [OF c] by blast
next
  assume "isAllocatedRange s a sz = Inr True \<and> unat off + unat len \<le> unat sz \<and> os_ok"
  then show "extentPurgeLazy os_ok s a sz off len =
        Inr (False, s\<lparr>mapped := (a + off, len, AnonReadWrite) # mapped s\<rparr>)"
    using purge_common_pre [of s a sz off len os_ok] by (simp add: extentPurgeLazy_def)
qed

theorem purge_lazy_forced_witness:
  "isAllocatedRange ((initialize_window 1048576 1048576)\<lparr>s_Current := 1056768\<rparr>) 1048576 8192 = Inr True \<and>
   unat (4096 :: 64 word) + unat (4096 :: 64 word) \<le> unat (8192 :: 64 word) \<and>
   extentPurgeLazy True ((initialize_window 1048576 1048576)\<lparr>s_Current := 1056768\<rparr>) 1048576 8192 4096 4096 =
     Inr (False, (initialize_window 1048576 1048576)
            \<lparr>s_Current := 1056768,
              mapped := [(1052672, 4096, AnonReadWrite), (1048576, 1048576, GuardMapping)]\<rparr>) \<and>
   extentPurgeForced True ((initialize_window 1048576 1048576)\<lparr>s_Current := 1056768\<rparr>) 1048576 8192 4096 4096 =
     Inr (False, (initialize_window 1048576 1048576)
            \<lparr>s_Current := 1056768,
              mapped := [(1052672, 4096, AnonReadWrite), (1048576, 1048576, GuardMapping)]\<rparr>)"
proof -
  let ?s = "(initialize_window 1048576 1048576)\<lparr>s_Current := 1056768\<rparr>"
  have a: "isAllocatedRange ?s 1048576 8192 = Inr True"
    by (simp add: isAllocatedRange_def isValidRange_def ASSERT_def initialize_window_def)
  have f: "unat (4096 :: 64 word) + unat (4096 :: 64 word) \<le> unat (8192 :: 64 word)" by simp
  note p = purge_lazy_forced [of True ?s 1048576 8192 4096 4096]
  have l: "extentPurgeLazy True ?s 1048576 8192 4096 4096 =
      Inr (False, ?s\<lparr>mapped := (1048576 + 4096, 4096, AnonReadWrite) # mapped ?s\<rparr>)"
    using p a f by blast
  have "extentPurgeForced True ?s 1048576 8192 4096 4096 = extentPurgeLazy True ?s 1048576 8192 4096 4096"
    using p by simp
  then show ?thesis
    using a f l by (simp add: initialize_window_def)
qed

section \<open>Allocation claims\<close>

text \<open>
  C1. Whenever \<open>extentAlloc\<close> returns an address other than \<open>NULL\<close>: the size and the
  alignment it went on with are those of \<open>widen\<close> (the requested ones outside the
  capability build, and a size not below the requested one in it); the address is the
  cursor at entry aligned up to that alignment, which is the least multiple of the
  alignment not below the cursor, and is a multiple of the requested alignment too;
  the range from the address over the size lies in the window, from the base up to
  the end; \<open>*zero\<close> and \<open>*commit\<close> are true; and the cursor is the address plus the
  size, without wrap-around, with the bounds of the window unchanged.
\<close>

theorem extentAlloc_success:
  assumes ok: "extentAlloc b os_ok s new_addr sz alignment zero commit = Inr (r, z, c, s')"
      and nn: "r \<noteq> 0"
  shows "\<exists>sz' al'. widen b sz alignment = Inr (sz', al') \<and> sz \<le> sz' \<and>
           (\<not> pure_capability b \<longrightarrow> sz' = sz \<and> al' = alignment) \<and>
           r = builtin_align_up (s_Current s) al' \<and>
           unat r = spec_alignUp (unat (s_Current s)) (unat al') \<and>
           unat r mod unat al' = 0 \<and> unat r mod unat alignment = 0 \<and>
           unat (s_Start s) \<le> unat r \<and> unat r + unat sz' \<le> unat (s_End s) \<and>
           z \<and> c \<and>
           s_Current s' = r + sz' \<and> unat (s_Current s') = unat r + unat sz' \<and>
           s_Start s' = s_Start s \<and> s_End s' = s_End s"
proof -
  from extentAlloc_success_state [OF ok nn] obtain sz' al' where
    f: "sz \<noteq> 0" "hasOneBitSet alignment" "window_ok s"
       "widen b sz alignment = Inr (sz', al')"
       "r = builtin_align_up (s_Current s) al'"
       "unat (s_Current s) \<le> unat r" "unat r + unat sz' \<le> unat (s_End s)" "z" "c"
       "s' = s\<lparr>mapped := (r, sz', AnonReadWrite) # mapped s, s_Current := r + sz'\<rparr>"
    by blast
  note w = widen_result [OF f(2) f(1) f(4)]
  have al: "hasOneBitSet al'" using w by blast
  have le: "s_Current s \<le> builtin_align_up (s_Current s) al'"
    using f(5,6) by (simp add: word_le_nat_alt)
  have 1: "unat r = spec_alignUp (unat (s_Current s)) (unat al')"
    using align_up_refines [OF al le] f(5) by simp
  have 2: "unat r mod unat al' = 0"
    using align_up_least_multiple [OF al le] f(5) by simp
  obtain k where k: "alignment = 2 ^ k" "unat alignment = 2 ^ k"
    using hasOneBitSet_power [OF f(2)] by blast
  have "r AND (al' - 1) = 0" using align_up_low_bits [of "s_Current s" al'] f(5) by simp
  then have "r AND (alignment - 1) = 0"
    using widen_keeps_alignment [OF f(4)] by (rule low_bits_subset)
  then have "unat r mod 2 ^ k = 0" using low_bits_mod [of r k] k(1) by simp
  then have 3: "unat r mod unat alignment = 0" by (simp only: k(2))
  have 4: "unat (s_Start s) \<le> unat r"
    using f(3,6) by (simp add: window_ok_def word_le_nat_alt)
  have "unat (s_End s) < 2 ^ 64" using unsigned_less [of "s_End s", where 'a=nat] by simp
  then have 5: "unat (r + sz') = unat r + unat sz'"
    using f(7) by (simp add: unat_plus_no_wrap)
  show ?thesis
    using f(4,5,7,8,9,10) w 1 2 3 4 5 by simp
qed

theorem extentAlloc_success_witness:
  "extentAlloc plain_build True (initialize_window 1048576 1048576) 0 4096 8192 False False =
     Inr (1048576, True, True,
          (initialize_window 1048576 1048576)
            \<lparr>mapped := [(1048576, 4096, AnonReadWrite), (1048576, 1048576, GuardMapping)],
              s_Current := 1052672\<rparr>) \<and>
   (1048576 :: 64 word) \<noteq> 0 \<and>
   widen plain_build 4096 8192 = Inr (4096, 8192) \<and>
   unat (1048576 :: 64 word) = spec_alignUp (unat (s_Current (initialize_window 1048576 1048576))) 8192"
proof -
  let ?s = "initialize_window 1048576 1048576"
  let ?s' = "?s\<lparr>mapped := [(1048576, 4096, AnonReadWrite), (1048576, 1048576, GuardMapping)],
              s_Current := 1052672\<rparr>"
  have e: "extentAlloc plain_build True ?s 0 4096 8192 False False = Inr (1048576, True, True, ?s')"
    by (simp add: extentAlloc_def plain_build_def initialize_window_def ASSERT_def hasOneBitSet_def
          widen_def builtin_align_up_def isAvailableRange_def isValidRange_def mmap_fixed_def
          MAP_FAILED_def)
  have n: "(1048576 :: 64 word) \<noteq> 0" by simp
  have w: "widen plain_build 4096 8192 = Inr (4096, 8192)" by (simp add: widen_def plain_build_def)
  show ?thesis
    using e n w extentAlloc_success [OF e n] by simp
qed

text \<open>
  C9. Whenever \<open>extentAlloc\<close> returns \<open>NULL\<close>, \<open>*zero\<close> and \<open>*commit\<close> hold the values
  they had at entry.
\<close>

theorem extentAlloc_failure_keeps_out_params:
  assumes "extentAlloc b os_ok s new_addr sz alignment zero commit = Inr (r, z, c, s')"
      and "r = 0"
  shows "z = zero \<and> c = commit"
  using extentAlloc_null_state [OF assms] by simp

theorem extentAlloc_failure_keeps_out_params_witness:
  "extentAlloc plain_build True ((initialize_window 1048576 1048576)\<lparr>s_Current := 2097152\<rparr>)
     0 4096 4096 True False =
     Inr (0, True, False, (initialize_window 1048576 1048576)\<lparr>s_Current := 2097152\<rparr>)"
proof -
  let ?s = "(initialize_window 1048576 1048576)\<lparr>s_Current := 2097152\<rparr>"
  have e: "extentAlloc plain_build True ?s 0 4096 4096 True False = Inr (0, True, False, ?s)"
    by (simp add: extentAlloc_def plain_build_def initialize_window_def ASSERT_def hasOneBitSet_def
          widen_def builtin_align_up_def isAvailableRange_def isValidRange_def mmap_fixed_def
          MAP_FAILED_def)
  show ?thesis
    using e extentAlloc_failure_keeps_out_params [OF e refl] by simp
qed

text \<open>
  C3. \<open>extentAlloc\<close> returns \<open>NULL\<close> and leaves the whole state and the two
  out-parameters as they were when a fixed address is requested or the size is zero;
  and, for a power-of-two alignment in a state that passes the assertions, when the
  cursor aligned up plus the size goes beyond the end of the window or the operating
  system refuses the mapping.
\<close>

theorem extentAlloc_rejects:
  "(new_addr \<noteq> 0 \<or> sz = 0 \<longrightarrow>
      extentAlloc b os_ok s new_addr sz alignment zero commit = Inr (0, zero, commit, s)) \<and>
   (window_ok s \<and> hasOneBitSet alignment \<and> widen b sz alignment = Inr (sz', al') \<and>
    (unat (s_End s) < spec_alignUp (unat (s_Current s)) (unat al') + unat sz' \<or> \<not> os_ok) \<longrightarrow>
      extentAlloc b os_ok s new_addr sz alignment zero commit = Inr (0, zero, commit, s))"
proof (intro conjI impI)
  assume "new_addr \<noteq> 0 \<or> sz = 0"
  then show "extentAlloc b os_ok s new_addr sz alignment zero commit = Inr (0, zero, commit, s)"
    by (auto simp add: extentAlloc_def)
next
  assume h: "window_ok s \<and> hasOneBitSet alignment \<and> widen b sz alignment = Inr (sz', al') \<and>
    (unat (s_End s) < spec_alignUp (unat (s_Current s)) (unat al') + unat sz' \<or> \<not> os_ok)"
  show "extentAlloc b os_ok s new_addr sz alignment zero commit = Inr (0, zero, commit, s)"
  proof (cases "new_addr \<noteq> 0 \<or> sz = 0")
    case True
    then show ?thesis by (auto simp add: extentAlloc_def)
  next
    case False
    then have al: "hasOneBitSet al'" using widen_result [of alignment sz b sz' al'] h by blast
    let ?start = "builtin_align_up (s_Current s) al'"
    have "unat (s_End s) < unat ?start + unat sz'"
      if "unat (s_Current s) \<le> unat ?start" "os_ok"
    proof -
      have "s_Current s \<le> ?start" using that(1) by (simp add: word_le_nat_alt)
      then have "unat ?start = spec_alignUp (unat (s_Current s)) (unat al')"
        by (rule align_up_refines [OF al])
      then show ?thesis using h that(2) by simp
    qed
    then show ?thesis using False h by (auto simp add: extentAlloc_char)
  qed
qed

theorem extentAlloc_rejects_witness:
  "extentAlloc plain_build True (initialize_window 1048576 1048576) 1048576 4096 4096 True False =
     Inr (0, True, False, initialize_window 1048576 1048576) \<and>
   extentAlloc plain_build True (initialize_window 1048576 1048576) 0 0 4096 True False =
     Inr (0, True, False, initialize_window 1048576 1048576) \<and>
   window_ok ((initialize_window 1048576 1048576)\<lparr>s_Current := 2093057\<rparr>) \<and>
   hasOneBitSet 4096 \<and>
   widen plain_build 4096 4096 = Inr (4096, 4096) \<and>
   unat (s_End ((initialize_window 1048576 1048576)\<lparr>s_Current := 2093057\<rparr>)) <
     spec_alignUp (unat (s_Current ((initialize_window 1048576 1048576)\<lparr>s_Current := 2093057\<rparr>)))
       (unat (4096 :: 64 word)) + unat (4096 :: 64 word) \<and>
   extentAlloc plain_build True ((initialize_window 1048576 1048576)\<lparr>s_Current := 2093057\<rparr>)
     0 4096 4096 True False =
     Inr (0, True, False, (initialize_window 1048576 1048576)\<lparr>s_Current := 2093057\<rparr>) \<and>
   extentAlloc plain_build False (initialize_window 1048576 1048576) 0 4096 4096 True False =
     Inr (0, True, False, initialize_window 1048576 1048576)"
proof -
  let ?s = "initialize_window 1048576 1048576"
  let ?f = "?s\<lparr>s_Current := 2093057\<rparr>"
  have w: "window_ok ?f" "window_ok ?s" by (simp_all add: window_ok_def initialize_window_def)
  have h: "hasOneBitSet 4096" by (simp add: hasOneBitSet_def)
  have wd: "widen plain_build 4096 4096 = Inr (4096, 4096)" by (simp add: widen_def plain_build_def)
  have x: "unat (s_End ?f) < spec_alignUp (unat (s_Current ?f)) (unat (4096 :: 64 word)) + unat (4096 :: 64 word)"
    by (simp add: spec_alignUp_def initialize_window_def)
  show ?thesis
    using w h wd x
      extentAlloc_rejects [of 1048576 4096 plain_build True ?s 4096 True False 4096 4096]
      extentAlloc_rejects [of 0 0 plain_build True ?s 4096 True False 4096 4096]
      extentAlloc_rejects [of 0 4096 plain_build True ?f 4096 True False 4096 4096]
      extentAlloc_rejects [of 0 4096 plain_build False ?s 4096 True False 4096 4096]
    by simp
qed

section \<open>Claims about sequences of hook invocations\<close>

text \<open>
  C2. From a state where the cursor lies between the base and the end of the window,
  along every sequence of hook invocations (allocate, destroy, purge-lazy,
  purge-forced, with any arguments and any outcome of the mappings) the cursor never
  decreases, after every invocation it lies between the base and the end of the
  window, which stay what they were, and an invocation of a hook other than the
  allocation hook leaves the cursor as it was.
\<close>

theorem cursor_monotone:
  assumes "window_ok s"
  shows "sorted (map s_Current (s # run b cs s)) \<and>
         (\<forall>t \<in> set (run b cs s).
            s_Start t = s_Start s \<and> s_End t = s_End s \<and>
            s_Start s \<le> s_Current t \<and> s_Current t \<le> s_End s) \<and>
         (\<forall>c t t'. \<not> is_Alloc c \<and> invoke b c t = Inr t' \<longrightarrow> s_Current t' = s_Current t)"
proof (intro conjI ballI allI impI)
  show "sorted (map s_Current (s # run b cs s))" by (rule run_sorted)
next
  fix t assume t: "t \<in> set (run b cs s)"
  note i = run_invariant [OF t]
  show "s_Start t = s_Start s" using i by simp
  show "s_End t = s_End s" using i by simp
  have "window_ok t" using i assms by simp
  then show "s_Start s \<le> s_Current t" using i by (simp add: window_ok_def)
  show "s_Current t \<le> s_End s" using \<open>window_ok t\<close> i by (simp add: window_ok_def)
next
  fix c t t'
  assume "\<not> is_Alloc c \<and> invoke b c t = Inr t'"
  then show "s_Current t' = s_Current t" using invoke_step [of b c t t'] by simp
qed

theorem cursor_monotone_witness:
  "window_ok (initialize_window 1048576 1048576) \<and>
   map s_Current (run plain_build
     [Alloc True 0 4096 4096 False False,
      Destroy True 1048576 4096 True,
      Alloc True 0 4096 8192 False False,
      PurgeLazy True 1056768 4096 0 4096,
      Alloc False 0 4096 4096 False False,
      PurgeForced True 1056768 4096 0 4096,
      Destroy True 2097152 4096 True,
      Alloc True 0 4096 4096 False False]
     (initialize_window 1048576 1048576)) =
     [1052672, 1052672, 1060864, 1060864, 1060864, 1060864] \<and>
   sorted (map s_Current (initialize_window 1048576 1048576 # run plain_build
     [Alloc True 0 4096 4096 False False,
      Destroy True 1048576 4096 True,
      Alloc True 0 4096 8192 False False,
      PurgeLazy True 1056768 4096 0 4096,
      Alloc False 0 4096 4096 False False,
      PurgeForced True 1056768 4096 0 4096,
      Destroy True 2097152 4096 True,
      Alloc True 0 4096 4096 False False]
     (initialize_window 1048576 1048576)))"
proof -
  let ?s = "initialize_window 1048576 1048576"
  let ?cs = "[Alloc True 0 4096 4096 False False,
      Destroy True 1048576 4096 True,
      Alloc True 0 4096 8192 False False,
      PurgeLazy True 1056768 4096 0 4096,
      Alloc False 0 4096 4096 False False,
      PurgeForced True 1056768 4096 0 4096,
      Destroy True 2097152 4096 True,
      Alloc True 0 4096 4096 False False]"
  have w: "window_ok ?s" by (simp add: window_ok_def initialize_window_def)
  have r: "map s_Current (run plain_build ?cs ?s) =
     [1052672, 1052672, 1060864, 1060864, 1060864, 1060864]"
    by (simp add: extentAlloc_def plain_build_def initialize_window_def ASSERT_def hasOneBitSet_def
          widen_def builtin_align_up_def isAvailableRange_def isValidRange_def mmap_fixed_def
          MAP_FAILED_def isAllocatedRange_def extentDestroy_def extentPurgeLazy_def extentPurgeForced_def extentPurgeCommon_def)
  show ?thesis
    using w r cursor_monotone [OF w, of plain_build ?cs] by blast
qed

text \<open>
  C7. The window of size \<open>1 << 20\<close> is reserved at a base \<open>B\<close> aligned to its size,
  and the cursor starts at \<open>B\<close>. In a build that leaves these two requests as they
  are, and with the operating system performing the mappings: the allocation of size
  4096 with alignment 4096 returns \<open>B\<close> and moves the cursor to \<open>B + 4096\<close>; the
  following allocation of size 4096 with alignment 8192 returns \<open>B + 8192\<close> and moves
  the cursor to \<open>B + 12288\<close>; and after any further sequence of hook invocations
  every allocation that succeeds returns an address at or above \<open>B + 12288\<close>, so
  the bytes from \<open>B + 4096\<close> up to \<open>B + 8192\<close> are never handed out.
\<close>

theorem scenario_alignment_skip:
  assumes al: "unat B mod 2 ^ 20 = 0" and nz: "B \<noteq> 0" and nw: "unat B + 2 ^ 20 < 2 ^ 64"
      and w1: "widen b 4096 4096 = Inr (4096, 4096)"
      and w2: "widen b 4096 8192 = Inr (4096, 8192)"
  shows "\<exists>s1 s2.
           s_Current (initialize_window B 1048576) = B \<and>
           extentAlloc b True (initialize_window B 1048576) 0 4096 4096 z c =
             Inr (B, True, True, s1) \<and>
           s_Current s1 = B + 4096 \<and>
           extentAlloc b True s1 0 4096 8192 z' c' = Inr (B + 8192, True, True, s2) \<and>
           s_Current s2 = B + 12288 \<and>
           (\<forall>cs t os_ok new_addr sz alignment zero commit r zo co t'.
              (t = s2 \<or> t \<in> set (run b cs s2)) \<and>
              extentAlloc b os_ok t new_addr sz alignment zero commit = Inr (r, zo, co, t') \<and>
              r \<noteq> 0 \<longrightarrow> unat B + 12288 \<le> unat r)"
proof -
  let ?s0 = "initialize_window B 1048576"
  let ?s1 = "?s0\<lparr>mapped := (B, 4096, AnonReadWrite) # mapped ?s0, s_Current := B + 4096\<rparr>"
  let ?s2 = "?s1\<lparr>mapped := (B + 8192, 4096, AnonReadWrite) # mapped ?s1, s_Current := B + 12288\<rparr>"
  have 1: "extentAlloc b True ?s0 0 4096 4096 z c = Inr (B, True, True, ?s1)"
    by (rule scenario_first [OF al nz nw w1])
  have 2: "extentAlloc b True ?s1 0 4096 8192 z' c' = Inr (B + 8192, True, True, ?s2)"
    by (rule scenario_second [OF al nz nw w2]) (simp_all add: initialize_window_def)
  have e3: "unat (B + 12288) = unat B + 12288"
    using nw unat_plus_no_wrap [of B 12288] by simp
  have 3: "unat B + 12288 \<le> unat r"
    if "(t = ?s2 \<or> t \<in> set (run b cs ?s2)) \<and>
        extentAlloc b os_ok t new_addr sz alignment zero commit = Inr (r, zo, co, t') \<and> r \<noteq> 0"
    for cs t os_ok new_addr sz alignment zero commit r zo co t'
    using later_allocations_above_cursor [of t ?s2 b cs os_ok new_addr sz alignment zero commit r zo co t']
      that e3 by simp
  have 0: "s_Current ?s0 = B" by (simp add: initialize_window_def)
  have c1: "s_Current ?s1 = B + 4096" by simp
  have c2: "s_Current ?s2 = B + 12288" by simp
  show ?thesis
    using 0 1 c1 2 c2 3 by blast
qed


theorem scenario_alignment_skip_witness:
  "unat (1048576 :: 64 word) mod 2 ^ 20 = 0 \<and> (1048576 :: 64 word) \<noteq> 0 \<and>
   unat (1048576 :: 64 word) + 2 ^ 20 < 2 ^ 64 \<and>
   widen plain_build 4096 4096 = Inr (4096, 4096) \<and>
   widen plain_build 4096 8192 = Inr (4096, 8192) \<and>
   (\<exists>s1 s2.
      extentAlloc plain_build True (initialize_window 1048576 1048576) 0 4096 4096 False False =
        Inr (1048576, True, True, s1) \<and>
      s_Current s1 = 1052672 \<and>
      extentAlloc plain_build True s1 0 4096 8192 False False = Inr (1056768, True, True, s2) \<and>
      s_Current s2 = 1060864)"
proof -
  have al: "unat (1048576 :: 64 word) mod 2 ^ 20 = 0" by simp
  have nz: "(1048576 :: 64 word) \<noteq> 0" by simp
  have nw: "unat (1048576 :: 64 word) + 2 ^ 20 < 2 ^ 64" by simp
  have w1: "widen plain_build 4096 4096 = Inr (4096, 4096)" by (simp add: widen_def plain_build_def)
  have w2: "widen plain_build 4096 8192 = Inr (4096, 8192)" by (simp add: widen_def plain_build_def)
  from scenario_alignment_skip [OF al nz nw w1 w2, of False False False False]
  obtain s1 s2 where
    "extentAlloc plain_build True (initialize_window 1048576 1048576) 0 4096 4096 False False =
        Inr (1048576, True, True, s1)"
    "s_Current s1 = 1048576 + 4096"
    "extentAlloc plain_build True s1 0 4096 8192 False False = Inr (1048576 + 8192, True, True, s2)"
    "s_Current s2 = 1048576 + 12288"
    by blast
  then have "\<exists>s1 s2.
      extentAlloc plain_build True (initialize_window 1048576 1048576) 0 4096 4096 False False =
        Inr (1048576, True, True, s1) \<and>
      s_Current s1 = 1052672 \<and>
      extentAlloc plain_build True s1 0 4096 8192 False False = Inr (1056768, True, True, s2) \<and>
      s_Current s2 = 1060864"
    by auto
  then show ?thesis using al nz nw w1 w2 by blast
qed

end
